theory Spec2Isabelle
  imports Main "HOL-Library.Word"
begin

section \<open>JavaScript strings and values\<close>

text \<open>
  A JavaScript string is a sequence of 16-bit code units (UTF-16). The string literals of
  the two scripts are ASCII, so they are written as HOL strings and injected with \<open>js\<close>.
\<close>

type_synonym jsstring = "16 word list"

definition js :: "string \<Rightarrow> jsstring" where
  "js s = map of_char s"

text \<open>
  The exceptions the handlers can meet: \<open>TypeError\<close> (a property read on \<open>null\<close> or
  \<open>undefined\<close>), \<open>URIError\<close> (thrown by \<open>encodeURIComponent\<close>) and the rejection of the
  clipboard promise (\<open>NotAllowedError\<close> stands for every rejection reason: the handlers
  never inspect the caught value).
\<close>

datatype js_error = TypeError | URIError | NotAllowedError

text \<open>The values \<open>getAttribute\<close> can return: \<open>null\<close> or a string.\<close>

datatype jsval = JNull | JStr jsstring

fun truthy :: "jsval \<Rightarrow> bool" where
  "truthy JNull = False"
| "truthy (JStr s) = (s \<noteq> [])"

text \<open>The operator \<open>a || b\<close>: \<open>a\<close> when it is truthy, else \<open>b\<close>.\<close>

definition js_or :: "jsval \<Rightarrow> jsval \<Rightarrow> jsval" where
  "js_or a b = (if truthy a then a else b)"

text \<open>
  \<open>String.prototype.includes(searchString)\<close> from position 0: whether \<open>searchString\<close>
  occurs as a contiguous run of code units.
\<close>

fun js_includes :: "jsstring \<Rightarrow> jsstring \<Rightarrow> bool" where
  "js_includes [] ss = (ss = [])"
| "js_includes (c # cs) ss = (take (length ss) (c # cs) = ss \<or> js_includes cs ss)"

section \<open>The built-in \<open>encodeURIComponent\<close>\<close>

text \<open>
  \<open>encodeURIComponent\<close> is ECMA-262's abstract operation \<open>Encode\<close> with no extra
  unescaped characters: the ASCII letters, the digits and \<open>_ - . ! ~ * ' ( )\<close> are kept,
  every other code point is replaced by the escapes \<open>%XX\<close> of the octets of its UTF-8
  encoding, and an unpaired surrogate throws \<open>URIError\<close>.
\<close>

definition unescaped :: "16 word \<Rightarrow> bool" where
  "unescaped c \<longleftrightarrow>
     (0x41 \<le> c \<and> c \<le> 0x5A) \<or> (0x61 \<le> c \<and> c \<le> 0x7A) \<or> (0x30 \<le> c \<and> c \<le> 0x39) \<or>
     c = 0x5F \<or> c = 0x2D \<or> c = 0x2E \<or> c = 0x21 \<or> c = 0x7E \<or> c = 0x2A \<or>
     c = 0x27 \<or> c = 0x28 \<or> c = 0x29"

definition is_leading_surrogate :: "16 word \<Rightarrow> bool" where
  "is_leading_surrogate c \<longleftrightarrow> 0xD800 \<le> c \<and> c \<le> 0xDBFF"

definition is_trailing_surrogate :: "16 word \<Rightarrow> bool" where
  "is_trailing_surrogate c \<longleftrightarrow> 0xDC00 \<le> c \<and> c \<le> 0xDFFF"

definition UTF16SurrogatePairToCodePoint :: "16 word \<Rightarrow> 16 word \<Rightarrow> nat" where
  "UTF16SurrogatePairToCodePoint lead trail =
     (unat lead - 0xD800) * 0x400 + (unat trail - 0xDC00) + 0x10000"

text \<open>
  \<open>CodePointAt(string, position)\<close>, on the code unit \<open>first\<close> at the position and the
  code units \<open>rest\<close> after it. The result is the code point, the number of code units
  it takes, and whether it is an unpaired surrogate.
\<close>

definition CodePointAt :: "16 word \<Rightarrow> jsstring \<Rightarrow> nat \<times> nat \<times> bool" where
  "CodePointAt first rest =
     (if \<not> is_leading_surrogate first \<and> \<not> is_trailing_surrogate first
        then (unat first, 1, False)
      else if is_trailing_surrogate first \<or> rest = [] then (unat first, 1, True)
      else (case rest of
              [] \<Rightarrow> (unat first, 1, True)
            | second # _ \<Rightarrow>
                if \<not> is_trailing_surrogate second then (unat first, 1, True)
                else (UTF16SurrogatePairToCodePoint first second, 2, False)))"

text \<open>The octets of the UTF-8 encoding of a code point.\<close>

definition UTF8 :: "nat \<Rightarrow> nat list" where
  "UTF8 cp =
     (if cp < 0x80 then [cp]
      else if cp < 0x800 then [0xC0 + cp div 0x40, 0x80 + cp mod 0x40]
      else if cp < 0x10000
        then [0xE0 + cp div 0x1000, 0x80 + (cp div 0x40) mod 0x40, 0x80 + cp mod 0x40]
      else [0xF0 + cp div 0x40000, 0x80 + (cp div 0x1000) mod 0x40,
            0x80 + (cp div 0x40) mod 0x40, 0x80 + cp mod 0x40])"

text \<open>One upper-case hexadecimal digit, and the escape \<open>%XX\<close> of an octet.\<close>

definition hex_digit :: "nat \<Rightarrow> 16 word" where
  "hex_digit d = (if d < 10 then 0x30 + of_nat d else 0x41 + of_nat (d - 10))"

definition percent :: "nat \<Rightarrow> jsstring" where
  "percent octet = [0x25, hex_digit (octet div 16), hex_digit (octet mod 16)]"

definition escape :: "nat \<Rightarrow> jsstring" where
  "escape cp = concat (map percent (UTF8 cp))"

function Encode :: "jsstring \<Rightarrow> js_error + jsstring" where
  "Encode [] = Inr []"
| "Encode (C # rest) =
     (if unescaped C
        then (case Encode rest of Inl e \<Rightarrow> Inl e | Inr R \<Rightarrow> Inr (C # R))
      else (case CodePointAt C rest of
              (cp, n, unpaired) \<Rightarrow>
                if unpaired then Inl URIError
                else (case Encode (drop (n - 1) rest) of
                        Inl e \<Rightarrow> Inl e
                      | Inr R \<Rightarrow> Inr (escape cp @ R))))"
  by pat_completeness auto
termination
  by (relation "measure length") auto

definition encodeURIComponent :: "jsstring \<Rightarrow> js_error + jsstring" where
  "encodeURIComponent uriComponent = Encode uriComponent"

section \<open>The page\<close>

text \<open>
  What the scripts read and write: the value of the input \<open>did\<close>, the label of the button
  \<open>copy\<close>, the \<open>disabled\<close> flag of the button \<open>continue\<close>, and the constant \<open>TARGET\<close>
  resolved when the script starts.
\<close>

record page =
  did_value :: jsstring
  copy_textContent :: jsstring
  cont_disabled :: bool
  TARGET :: jsval

text \<open>
  The browser interfaces the copy handlers call, in the order of the calls:
  \<open>navigator.clipboard.writeText(v)\<close>, \<open>didInput.select()\<close> and
  \<open>document.execCommand(c)\<close>.
\<close>

datatype api_call = WriteText jsstring | Select | ExecCommand jsstring

text \<open>How \<open>await navigator.clipboard.writeText(...)\<close> ends.\<close>

datatype clipboard_outcome = Resolved | Rejected | ApiAbsent

section \<open>Resolving \<open>TARGET\<close>\<close>

text \<open>A script element, as its attributes.\<close>

type_synonym element = "jsstring \<rightharpoonup> jsstring"

definition getAttribute :: "element \<Rightarrow> jsstring \<Rightarrow> jsval" where
  "getAttribute e name = (case e name of None \<Rightarrow> JNull | Some v \<Rightarrow> JStr v)"

text \<open>
  \<open>Id.js\<close>: \<open>scriptTag = document.currentScript || document.querySelector(...)\<close>, then
  \<open>TARGET = scriptTag ? scriptTag.getAttribute('data-target') : ""\<close>. The two lookups
  are parameters: an element or \<open>null\<close>.
\<close>

definition resolve_TARGET_Id :: "element option \<Rightarrow> element option \<Rightarrow> jsval" where
  "resolve_TARGET_Id currentScript queried =
     (let scriptTag = (case currentScript of Some e \<Rightarrow> Some e | None \<Rightarrow> queried)
      in case scriptTag of
           Some e \<Rightarrow> getAttribute e (js ''data-target'')
         | None \<Rightarrow> JStr (js ''''))"

text \<open>
  \<open>part_000\<close>: \<open>TARGET = document.currentScript.getAttribute('data-target') || ""\<close>.
\<close>

definition resolve_TARGET_part000 :: "element option \<Rightarrow> js_error + jsval" where
  "resolve_TARGET_part000 currentScript =
     (case currentScript of
        None \<Rightarrow> Inl TypeError
      | Some e \<Rightarrow> Inr (js_or (getAttribute e (js ''data-target'')) (JStr (js ''''))))"

section \<open>The copy handlers\<close>

text \<open>
  Evaluating \<open>navigator.clipboard.writeText(v)\<close> and awaiting it: the calls made, and
  either the exception that leaves the \<open>try\<close> block or normal completion. Without the
  Clipboard API, \<open>navigator.clipboard\<close> is \<open>undefined\<close> and reading \<open>writeText\<close> from
  it throws before anything is called.
\<close>

definition writeText :: "clipboard_outcome \<Rightarrow> jsstring \<Rightarrow> api_call list \<times> (js_error + unit)" where
  "writeText oc v =
     (case oc of
        Resolved \<Rightarrow> ([WriteText v], Inr ())
      | Rejected \<Rightarrow> ([WriteText v], Inl NotAllowedError)
      | ApiAbsent \<Rightarrow> ([], Inl TypeError))"

text \<open>
  \<open>Id.js\<close>, from the point where the awaited expression has ended with \<open>r\<close>: the rest
  of the \<open>try\<close> block or the \<open>catch\<close> block, then the statement after them.
  \<open>exec_ok\<close> is what \<open>document.execCommand('copy')\<close> returns; the script drops it.
\<close>

definition copy_after_Id :: "js_error + unit \<Rightarrow> bool \<Rightarrow> page \<Rightarrow> page \<times> api_call list" where
  "copy_after_Id r exec_ok s =
     (let (s1, calls) =
            (case r of
               Inr _ \<Rightarrow> (s\<lparr>copy_textContent := js ''Copied!''\<rparr>, [])
             | Inl e \<Rightarrow>
                 (s\<lparr>copy_textContent := js ''Copied (fallback)!''\<rparr>,
                  [Select, ExecCommand (js ''copy'')]))
      in (s1\<lparr>cont_disabled := False\<rparr>, calls))"

definition copy_click_Id :: "clipboard_outcome \<Rightarrow> bool \<Rightarrow> page \<Rightarrow> page \<times> api_call list" where
  "copy_click_Id oc exec_ok s =
     (let (calls, r) = writeText oc (did_value s);
          (s', calls') = copy_after_Id r exec_ok s
      in (s', calls @ calls'))"

text \<open>\<open>part_000\<close>: each branch enables the continue button itself.\<close>

definition copy_after_part000 :: "js_error + unit \<Rightarrow> page \<Rightarrow> page \<times> api_call list" where
  "copy_after_part000 r s =
     (case r of
        Inr _ \<Rightarrow> (s\<lparr>copy_textContent := js ''Copied!'', cont_disabled := False\<rparr>, [])
      | Inl e \<Rightarrow> (s\<lparr>copy_textContent := js ''Select & copy'', cont_disabled := False\<rparr>, [Select]))"

definition copy_click_part000 :: "clipboard_outcome \<Rightarrow> page \<Rightarrow> page \<times> api_call list" where
  "copy_click_part000 oc s =
     (let (calls, r) = writeText oc (did_value s);
          (s', calls') = copy_after_part000 r s
      in (s', calls @ calls'))"

section \<open>The continue handlers\<close>

text \<open>
  The result is the string assigned to \<open>location.href\<close>, or the exception that ends the
  handler before the assignment: \<open>TARGET.includes\<close> on \<open>null\<close> throws \<open>TypeError\<close>.
\<close>

definition cont_click_Id :: "page \<Rightarrow> js_error + jsstring" where
  "cont_click_Id s =
     (case TARGET s of
        JNull \<Rightarrow> Inl TypeError
      | JStr T \<Rightarrow>
          (let sep = (if js_includes T (js ''?'') then js ''&'' else js ''?'')
           in case encodeURIComponent (did_value s) of
                Inl e \<Rightarrow> Inl e
              | Inr enc \<Rightarrow> Inr (T @ sep @ js ''discord_id='' @ enc)))"

definition cont_click_part000 :: "page \<Rightarrow> js_error + jsstring" where
  "cont_click_part000 s =
     (case TARGET s of
        JNull \<Rightarrow> Inl TypeError
      | JStr T \<Rightarrow>
          (let sep = (if js_includes T (js ''?'') then js ''&'' else js ''?'')
           in case encodeURIComponent (did_value s) of
                Inl e \<Rightarrow> Inl e
              | Inr enc \<Rightarrow> Inr (T @ sep @ js ''discord_id='' @ enc)))"

text \<open>The user typing into the input field.\<close>

definition user_edit :: "jsstring \<Rightarrow> page \<Rightarrow> page" where
  "user_edit v s = s\<lparr>did_value := v\<rparr>"

section \<open>The two scripts side by side\<close>

datatype variant = Id_js | Part_000

definition copy_after :: "variant \<Rightarrow> js_error + unit \<Rightarrow> bool \<Rightarrow> page \<Rightarrow> page \<times> api_call list" where
  "copy_after V r exec_ok s =
     (case V of Id_js \<Rightarrow> copy_after_Id r exec_ok s | Part_000 \<Rightarrow> copy_after_part000 r s)"

definition copy_click :: "variant \<Rightarrow> clipboard_outcome \<Rightarrow> bool \<Rightarrow> page \<Rightarrow> page \<times> api_call list" where
  "copy_click V oc exec_ok s =
     (case V of Id_js \<Rightarrow> copy_click_Id oc exec_ok s | Part_000 \<Rightarrow> copy_click_part000 oc s)"

definition cont_click :: "variant \<Rightarrow> page \<Rightarrow> js_error + jsstring" where
  "cont_click V s = (case V of Id_js \<Rightarrow> cont_click_Id s | Part_000 \<Rightarrow> cont_click_part000 s)"

text \<open>
  Copy clicks in a row, each run to its end before the next, with the same clipboard
  outcome; the list gives what \<open>execCommand\<close> returns at each click.
\<close>

fun copy_clicks :: "variant \<Rightarrow> clipboard_outcome \<Rightarrow> bool list \<Rightarrow> page \<Rightarrow> page" where
  "copy_clicks V oc [] s = s"
| "copy_clicks V oc (exec_ok # rest) s = copy_clicks V oc rest (fst (copy_click V oc exec_ok s))"

section \<open>The lifetime of a page\<close>

text \<open>
  The copy handler is \<open>async\<close>: with the Clipboard API present it stops at its
  \<open>await\<close> and goes on when the promise settles, and other events can come in
  between. A page's lifetime is its page state, the number of clipboard writes not yet
  settled, the browser calls made so far, and the URL assigned to \<open>location.href\<close>
  once a continue click has navigated (nothing happens on the page after that).
\<close>

record lifetime =
  pg :: page
  pending :: nat
  calls :: "api_call list"
  location_href :: "jsstring option"

text \<open>
  The events: a click on the copy button (whether the Clipboard API is present, and
  what \<open>execCommand\<close> returns if the handler reaches it), a pending clipboard write
  settling (fulfilled or rejected, and what \<open>execCommand\<close> returns), the user editing
  the input field, and a click on the continue button. With the API present a copy
  click calls \<open>writeText\<close> and waits; without it the \<open>TypeError\<close> is caught at once.
  A browser dispatches no click on a disabled button, and there is nothing to settle
  when no write is pending.
\<close>

datatype event =
    ClickCopy bool bool
  | Settle bool bool
  | UserEdit jsstring
  | ClickContinue

definition step :: "variant \<Rightarrow> event \<Rightarrow> lifetime \<Rightarrow> lifetime" where
  "step V ev c =
     (if location_href c \<noteq> None then c
      else case ev of
        ClickCopy api_present exec_ok \<Rightarrow>
          (if api_present
             then c\<lparr>pending := Suc (pending c),
                    calls := calls c @ [WriteText (did_value (pg c))]\<rparr>
           else case copy_after V (Inl TypeError) exec_ok (pg c) of
                  (s', made') \<Rightarrow> c\<lparr>pg := s', calls := calls c @ made'\<rparr>)
      | Settle fulfilled exec_ok \<Rightarrow>
          (if pending c = 0 then c
           else case copy_after V (if fulfilled then Inr () else Inl NotAllowedError)
                       exec_ok (pg c) of
                  (s', made') \<Rightarrow>
                    c\<lparr>pg := s', pending := pending c - 1, calls := calls c @ made'\<rparr>)
      | UserEdit v \<Rightarrow> c\<lparr>pg := user_edit v (pg c)\<rparr>
      | ClickContinue \<Rightarrow>
          (if cont_disabled (pg c) then c
           else case cont_click V (pg c) of
                  Inl e \<Rightarrow> c
                | Inr url \<Rightarrow> c\<lparr>location_href := Some url\<rparr>))"

fun run :: "variant \<Rightarrow> event list \<Rightarrow> lifetime \<Rightarrow> lifetime" where
  "run V [] c = c"
| "run V (ev # evs) c = run V evs (step V ev c)"

text \<open>A page as loaded: nothing pending, nothing called, no navigation.\<close>

definition loaded :: "page \<Rightarrow> lifetime" where
  "loaded s = \<lparr>pg = s, pending = 0, calls = [], location_href = None\<rparr>"

section \<open>Well-formed strings\<close>

text \<open>
  \<open>String.prototype.isWellFormed\<close>: no unpaired surrogate. These are the strings on
  which \<open>encodeURIComponent\<close> returns.
\<close>

fun isWellFormed :: "jsstring \<Rightarrow> bool" where
  "isWellFormed [] = True"
| "isWellFormed [c] = (\<not> is_leading_surrogate c \<and> \<not> is_trailing_surrogate c)"
| "isWellFormed (c # d # r) =
     (if is_leading_surrogate c then is_trailing_surrogate d \<and> isWellFormed r
      else \<not> is_trailing_surrogate c \<and> isWellFormed (d # r))"

section \<open>Facts about the built-ins\<close>

declare Encode.simps [simp del]

lemma js_includes_single: "js_includes T [q] \<longleftrightarrow> q \<in> set T"
  by (induction T) auto

lemma js_question: "js ''?'' = [0x3F]"
  by (simp add: js_def)

lemma unescaped_not_surrogate:
  "unescaped c \<Longrightarrow> \<not> is_leading_surrogate c \<and> \<not> is_trailing_surrogate c"
  unfolding unescaped_def is_leading_surrogate_def is_trailing_surrogate_def
  by (auto simp: word_le_nat_alt)

lemma leading_not_trailing: "is_leading_surrogate c \<Longrightarrow> \<not> is_trailing_surrogate c"
  unfolding is_leading_surrogate_def is_trailing_surrogate_def
  by (auto simp: word_le_nat_alt)

lemma Encode_unescaped:
  "unescaped C \<Longrightarrow>
   Encode (C # rest) = (case Encode rest of Inl e \<Rightarrow> Inl e | Inr R \<Rightarrow> Inr (C # R))"
  by (subst Encode.simps) simp

lemma Encode_plain:
  "\<not> unescaped C \<Longrightarrow> \<not> is_leading_surrogate C \<Longrightarrow> \<not> is_trailing_surrogate C \<Longrightarrow>
   Encode (C # rest) =
     (case Encode rest of Inl e \<Rightarrow> Inl e | Inr R \<Rightarrow> Inr (escape (unat C) @ R))"
  by (subst Encode.simps) (simp add: CodePointAt_def)

lemma Encode_trailing:
  assumes "is_trailing_surrogate C"
  shows "Encode (C # rest) = Inl URIError"
proof -
  have "\<not> unescaped C"
    using assms unescaped_not_surrogate by blast
  then show ?thesis
    using assms by (subst Encode.simps) (simp add: CodePointAt_def)
qed

lemma Encode_leading_end:
  assumes "is_leading_surrogate C"
  shows "Encode [C] = Inl URIError"
proof -
  have "\<not> unescaped C"
    using assms unescaped_not_surrogate by blast
  then show ?thesis
    using assms by (subst Encode.simps) (simp add: CodePointAt_def)
qed

lemma Encode_leading_unpaired:
  assumes "is_leading_surrogate C" and "\<not> is_trailing_surrogate d"
  shows "Encode (C # d # rest) = Inl URIError"
proof -
  have "\<not> unescaped C"
    using assms unescaped_not_surrogate by blast
  then show ?thesis
    using assms by (subst Encode.simps) (simp add: CodePointAt_def)
qed

lemma Encode_pair:
  assumes "is_leading_surrogate C" and "is_trailing_surrogate d"
  shows "Encode (C # d # rest) =
     (case Encode rest of
        Inl e \<Rightarrow> Inl e
      | Inr R \<Rightarrow> Inr (escape (UTF16SurrogatePairToCodePoint C d) @ R))"
proof -
  have "\<not> unescaped C" and "\<not> is_trailing_surrogate C"
    using assms unescaped_not_surrogate leading_not_trailing by blast+
  then show ?thesis
    using assms by (subst Encode.simps) (simp add: CodePointAt_def)
qed


lemma Encode_single:
  "\<not> is_leading_surrogate c \<Longrightarrow> \<not> is_trailing_surrogate c \<Longrightarrow>
   Encode (c # rest) =
     (case Encode rest of
        Inl e \<Rightarrow> Inl e
      | Inr R \<Rightarrow> Inr ((if unescaped c then [c] else escape (unat c)) @ R))"
  by (cases "unescaped c") (simp_all add: Encode_unescaped Encode_plain split: sum.splits)

lemma Encode_isWellFormed: "(\<exists>e. Encode v = Inr e) \<longleftrightarrow> isWellFormed v"
proof (induction v rule: isWellFormed.induct)
  case 1
  show ?case by (simp add: Encode.simps)
next
  case (2 c)
  show ?case
  proof (cases "is_leading_surrogate c")
    case True
    then show ?thesis by (simp add: Encode_leading_end)
  next
    case False
    show ?thesis
    proof (cases "is_trailing_surrogate c")
      case True
      then show ?thesis by (simp add: Encode_trailing)
    next
      case notrail: False
      with False show ?thesis
        by (simp add: Encode_single Encode.simps(1))
    qed
  qed
next
  case (3 c d r)
  show ?case
  proof (cases "is_leading_surrogate c")
    case True
    show ?thesis
    proof (cases "is_trailing_surrogate d")
      case False
      with True show ?thesis by (simp add: Encode_leading_unpaired)
    next
      case trail: True
      with True 3(1) show ?thesis
        by (auto simp: Encode_pair split: sum.splits)
    qed
  next
    case False
    show ?thesis
    proof (cases "is_trailing_surrogate c")
      case True
      with False show ?thesis by (simp add: Encode_trailing)
    next
      case notrail: False
      with False 3(2) show ?thesis
        by (auto simp: Encode_single split: sum.splits)
    qed
  qed
qed

lemma hex_digit_unescaped: "d < 16 \<Longrightarrow> unescaped (hex_digit d)"
proof -
  assume "d < 16"
  then have "d = 0 \<or> d = 1 \<or> d = 2 \<or> d = 3 \<or> d = 4 \<or> d = 5 \<or> d = 6 \<or> d = 7 \<or> d = 8 \<or>
      d = 9 \<or> d = 10 \<or> d = 11 \<or> d = 12 \<or> d = 13 \<or> d = 14 \<or> d = 15"
    by arith
  then show ?thesis
    by (elim disjE) (simp_all add: hex_digit_def unescaped_def)
qed

lemma UTF8_octets: "cp < 0x110000 \<Longrightarrow> octet \<in> set (UTF8 cp) \<Longrightarrow> octet < 256"
  by (auto simp: UTF8_def split: if_splits)

lemma percent_chars:
  "octet < 256 \<Longrightarrow> u \<in> set (percent octet) \<Longrightarrow> unescaped u \<or> u = 0x25"
  by (auto simp: percent_def intro!: hex_digit_unescaped)

lemma escape_chars:
  "cp < 0x110000 \<Longrightarrow> u \<in> set (escape cp) \<Longrightarrow> unescaped u \<or> u = 0x25"
  unfolding escape_def using UTF8_octets percent_chars by fastforce

lemma pair_bound:
  "is_leading_surrogate c \<Longrightarrow> is_trailing_surrogate d \<Longrightarrow>
   UTF16SurrogatePairToCodePoint c d < 0x110000"
  unfolding is_leading_surrogate_def is_trailing_surrogate_def
    UTF16SurrogatePairToCodePoint_def
  by (auto simp: word_le_nat_alt)

lemma unit_bound: "unat (c :: 16 word) < 0x110000"
  using unsigned_less [of c, where ?'a = nat] by simp


lemma Encode_chars: "Encode v = Inr e \<Longrightarrow> u \<in> set e \<Longrightarrow> unescaped u \<or> u = 0x25"
proof (induction v arbitrary: e rule: isWellFormed.induct)
  case 1
  then show ?case by (simp add: Encode.simps)
next
  case (2 c)
  then have wf: "isWellFormed [c]"
    using Encode_isWellFormed by blast
  with 2 show ?case
    by (auto simp: Encode_single Encode.simps(1) split: if_splits
        dest: escape_chars [OF unit_bound])
next
  case (3 c d r)
  then have wf: "isWellFormed (c # d # r)"
    using Encode_isWellFormed by blast
  show ?case
  proof (cases "is_leading_surrogate c")
    case True
    with wf have trail: "is_trailing_surrogate d" by simp
    from 3(3) True trail obtain R where R: "Encode r = Inr R"
      and e: "e = escape (UTF16SurrogatePairToCodePoint c d) @ R"
      by (auto simp: Encode_pair split: sum.splits)
    from 3(4) e consider "u \<in> set (escape (UTF16SurrogatePairToCodePoint c d))" | "u \<in> set R"
      by auto
    then show ?thesis
    proof cases
      case 1
      then show ?thesis
        using escape_chars [OF pair_bound [OF True trail]] by blast
    next
      case 2
      then show ?thesis
        using "3.IH"(1) [OF True R] by blast
    qed
  next
    case False
    with wf have notrail: "\<not> is_trailing_surrogate c" by simp
    from 3(3) False notrail obtain R where R: "Encode (d # r) = Inr R"
      and e: "e = (if unescaped c then [c] else escape (unat c)) @ R"
      by (auto simp: Encode_single split: sum.splits)
    from 3(4) e consider "unescaped c" "u = c" | "u \<in> set (escape (unat c))" | "u \<in> set R"
      by (auto split: if_splits)
    then show ?thesis
    proof cases
      case 1
      then show ?thesis by simp
    next
      case 2
      then show ?thesis
        using escape_chars [OF unit_bound] by blast
    next
      case 3
      then show ?thesis
        using "3.IH"(2) [OF False R] by blast
    qed
  qed
qed

lemma Encode_append:
  "Encode a = Inr ea \<Longrightarrow>
   Encode (a @ b) = (case Encode b of Inl x \<Rightarrow> Inl x | Inr eb \<Rightarrow> Inr (ea @ eb))"
proof (induction a arbitrary: ea rule: isWellFormed.induct)
  case 1
  then show ?case by (simp add: Encode.simps(1) split: sum.splits)
next
  case (2 c)
  then have "isWellFormed [c]"
    using Encode_isWellFormed by blast
  with 2 show ?case
    by (auto simp: Encode_single Encode.simps(1) split: sum.splits)
next
  case (3 c d r)
  then have wf: "isWellFormed (c # d # r)"
    using Encode_isWellFormed by blast
  show ?case
  proof (cases "is_leading_surrogate c")
    case True
    with wf have trail: "is_trailing_surrogate d" by simp
    from 3(3) True trail obtain R where R: "Encode r = Inr R"
      and ea: "ea = escape (UTF16SurrogatePairToCodePoint c d) @ R"
      by (auto simp: Encode_pair split: sum.splits)
    show ?thesis
      using 3(1) [OF True R] True trail ea
      by (simp add: Encode_pair split: sum.splits)
  next
    case False
    with wf have notrail: "\<not> is_trailing_surrogate c" by simp
    from 3(3) False notrail obtain R where R: "Encode (d # r) = Inr R"
      and ea: "ea = (if unescaped c then [c] else escape (unat c)) @ R"
      by (auto simp: Encode_single split: sum.splits)
    show ?thesis
      using 3(2) [OF False R] False notrail ea
      by (simp add: Encode_single split: sum.splits)
  qed
qed

lemma Encode_prefix:
  "Encode (a @ b) = Inr e \<Longrightarrow> b = [] \<or> \<not> is_trailing_surrogate (hd b) \<Longrightarrow>
   \<exists>ea. Encode a = Inr ea"
proof (induction a arbitrary: e rule: isWellFormed.induct)
  case 1
  then show ?case by (simp add: Encode.simps(1))
next
  case (2 c)
  show ?case
  proof (cases "is_leading_surrogate c")
    case True
    show ?thesis
    proof (cases b)
      case Nil
      with 2 show ?thesis by auto
    next
      case (Cons x xs)
      with 2 True show ?thesis
        by (simp add: Encode_leading_unpaired)
    qed
  next
    case False
    show ?thesis
    proof (cases "is_trailing_surrogate c")
      case True
      with 2 show ?thesis by (simp add: Encode_trailing)
    next
      case notrail: False
      with False show ?thesis
        by (simp add: Encode_single Encode.simps(1))
    qed
  qed
next
  case (3 c d r)
  show ?case
  proof (cases "is_leading_surrogate c")
    case True
    show ?thesis
    proof (cases "is_trailing_surrogate d")
      case False
      with 3(3) True show ?thesis by (simp add: Encode_leading_unpaired)
    next
      case trail: True
      from 3(3) True trail obtain R where "Encode (r @ b) = Inr R"
        by (auto simp: Encode_pair split: sum.splits)
      from 3(1) [OF True this 3(4)] True trail show ?thesis
        by (auto simp: Encode_pair)
    qed
  next
    case False
    show ?thesis
    proof (cases "is_trailing_surrogate c")
      case True
      with 3(3) show ?thesis by (simp add: Encode_trailing)
    next
      case notrail: False
      from 3(3) False notrail obtain R where "Encode ((d # r) @ b) = Inr R"
        by (auto simp: Encode_single split: sum.splits)
      from 3(2) [OF False this 3(4)] False notrail show ?thesis
        by (auto simp: Encode_single)
    qed
  qed
qed

section \<open>Facts about the handlers\<close>

lemma cont_click_Id_string:
  "TARGET s = JStr T \<Longrightarrow>
   cont_click_Id s =
     (case Encode (did_value s) of
        Inl e \<Rightarrow> Inl e
      | Inr enc \<Rightarrow>
          Inr (T @ (if 0x3F \<in> set T then js ''&'' else js ''?'') @ js ''discord_id='' @ enc))"
  by (simp add: cont_click_Id_def encodeURIComponent_def js_question js_includes_single
      split: sum.splits)

lemma cont_click_part000_string:
  "TARGET s = JStr T \<Longrightarrow>
   cont_click_part000 s =
     (case Encode (did_value s) of
        Inl e \<Rightarrow> Inl e
      | Inr enc \<Rightarrow>
          Inr (T @ (if 0x3F \<in> set T then js ''&'' else js ''?'') @ js ''discord_id='' @ enc))"
  by (simp add: cont_click_part000_def encodeURIComponent_def js_question js_includes_single
      split: sum.splits)

lemma cont_click_string:
  "TARGET s = JStr T \<Longrightarrow>
   cont_click V s =
     (case Encode (did_value s) of
        Inl e \<Rightarrow> Inl e
      | Inr enc \<Rightarrow>
          Inr (T @ (if 0x3F \<in> set T then js ''&'' else js ''?'') @ js ''discord_id='' @ enc))"
  by (cases V) (simp_all add: cont_click_def cont_click_Id_string cont_click_part000_string)

lemma copy_click_Id_page:
  "fst (copy_click_Id oc exec_ok s) =
     s\<lparr>copy_textContent := (if oc = Resolved then js ''Copied!'' else js ''Copied (fallback)!''),
       cont_disabled := False\<rparr>"
  by (cases oc) (simp_all add: copy_click_Id_def copy_after_Id_def writeText_def)

lemma copy_click_Id_calls:
  "snd (copy_click_Id oc exec_ok s) =
     (if oc = ApiAbsent then [] else [WriteText (did_value s)]) @
     (if oc = Resolved then [] else [Select, ExecCommand (js ''copy'')])"
  by (cases oc) (simp_all add: copy_click_Id_def copy_after_Id_def writeText_def)

lemma copy_click_part000_page:
  "fst (copy_click_part000 oc s) =
     s\<lparr>copy_textContent := (if oc = Resolved then js ''Copied!'' else js ''Select & copy''),
       cont_disabled := False\<rparr>"
  by (cases oc) (simp_all add: copy_click_part000_def copy_after_part000_def writeText_def)

lemma copy_click_part000_calls:
  "snd (copy_click_part000 oc s) =
     (if oc = ApiAbsent then [] else [WriteText (did_value s)]) @
     (if oc = Resolved then [] else [Select])"
  by (cases oc) (simp_all add: copy_click_part000_def copy_after_part000_def writeText_def)

lemma labels_distinct:
  "js ''Copied (fallback)!'' \<noteq> js ''Copied!''" "js ''Select & copy'' \<noteq> js ''Copied!''"
  by (simp_all add: js_def)

lemmas enc_eval = Encode.simps(1) Encode_single Encode_pair Encode_trailing Encode_leading_end
  Encode_leading_unpaired unescaped_def is_leading_surrogate_def is_trailing_surrogate_def
  escape_def UTF8_def percent_def hex_digit_def UTF16SurrogatePairToCodePoint_def js_def

section \<open>The continue handler\<close>

text \<open>
  Claim C1, as amended. For every target string \<open>T\<close> and every input value that is
  well-formed UTF-16, \<open>encodeURIComponent\<close> returns an encoding \<open>enc\<close> of the value, and
  the continue handler of either script assigns to \<open>location.href\<close> the string \<open>T\<close>,
  then \<open>&\<close> if \<open>T\<close> contains the character \<open>?\<close> (code unit \<open>0x3F\<close>) and \<open>?\<close> if not,
  then \<open>discord_id=\<close>, then \<open>enc\<close>.
\<close>

theorem cont_click_navigates:
  assumes "isWellFormed (did_value s)" and "TARGET s = JStr T"
  shows "\<exists>enc. encodeURIComponent (did_value s) = Inr enc \<and>
    cont_click_Id s =
      Inr (T @ (if 0x3F \<in> set T then js ''&'' else js ''?'') @ js ''discord_id='' @ enc) \<and>
    cont_click_part000 s =
      Inr (T @ (if 0x3F \<in> set T then js ''&'' else js ''?'') @ js ''discord_id='' @ enc)"
proof -
  from assms(1) obtain enc where enc: "Encode (did_value s) = Inr enc"
    using Encode_isWellFormed by blast
  then show ?thesis
    using assms(2)
    by (simp add: cont_click_Id_string cont_click_part000_string encodeURIComponent_def)
qed

text \<open>
  The spec's scenario: target \<open>https://example.com/welcome?ref=abc\<close>, input \<open>98765\<close>.
\<close>

theorem cont_click_navigates_witness:
  "isWellFormed (js ''98765'') \<and>
   cont_click_Id \<lparr>did_value = js ''98765'', copy_textContent = js ''Copy'',
       cont_disabled = False, TARGET = JStr (js ''https://example.com/welcome?ref=abc'')\<rparr> =
     Inr (js ''https://example.com/welcome?ref=abc&discord_id=98765'')"
proof -
  let ?a = "\<lparr>did_value = js ''98765'', copy_textContent = js ''Copy'',
       cont_disabled = False, TARGET = JStr (js ''https://example.com/welcome?ref=abc'')\<rparr>"
  have wa: "isWellFormed (did_value ?a)"
    by (simp add: enc_eval)
  have ea: "encodeURIComponent (did_value ?a) = Inr (js ''98765'')"
    by (simp add: encodeURIComponent_def enc_eval)
  have ta: "TARGET ?a = JStr (js ''https://example.com/welcome?ref=abc'')"
    by simp
  from cont_click_navigates [OF wa ta] ea
  have "cont_click_Id ?a = Inr (js ''https://example.com/welcome?ref=abc&discord_id=98765'')"
    by (auto simp: js_def)
  with wa show ?thesis by simp
qed

text \<open>
  Claim C1 as stated, for every input value, fails: on the value made of the single
  code unit \<open>0xD800\<close> (an unpaired surrogate) \<open>encodeURIComponent\<close> throws
  \<open>URIError\<close>, and neither handler assigns \<open>location.href\<close>.
\<close>

theorem cont_click_unpaired_surrogate:
  "cont_click_Id \<lparr>did_value = [0xD800], copy_textContent = js ''Copied!'',
       cont_disabled = False, TARGET = JStr (js ''https://example.com/welcome'')\<rparr> =
     Inl URIError \<and>
   cont_click_part000 \<lparr>did_value = [0xD800], copy_textContent = js ''Copied!'',
       cont_disabled = False, TARGET = JStr (js ''https://example.com/welcome'')\<rparr> =
     Inl URIError"
  by (simp add: cont_click_Id_def cont_click_part000_def encodeURIComponent_def
      Encode_leading_end is_leading_surrogate_def)

text \<open>
  Claim C2 at the input where \<open>Id.js\<close> departs from it. In the \<open>DOMContentLoaded\<close>
  listener \<open>document.currentScript\<close> is \<open>null\<close>; when \<open>querySelector\<close> finds a script
  element with no \<open>data-target\<close> attribute, \<open>getAttribute\<close> returns \<open>null\<close>, \<open>TARGET\<close>
  is \<open>null\<close> and not the empty string, and the continue click throws \<open>TypeError\<close> at
  \<open>TARGET.includes\<close> without navigating.
\<close>

theorem cont_click_Id_attribute_absent:
  "resolve_TARGET_Id None (Some Map.empty) = JNull \<and>
   cont_click_Id \<lparr>did_value = js ''xyz'', copy_textContent = js ''Copied!'',
       cont_disabled = False, TARGET = resolve_TARGET_Id None (Some Map.empty)\<rparr> =
     Inl TypeError"
  by (simp add: resolve_TARGET_Id_def getAttribute_def cont_click_Id_def)

text \<open>
  \<open>part_000\<close> does default to the empty string there, and so does \<open>Id.js\<close> when no
  script element is found; from the empty target both handlers navigate to
  \<open>?discord_id=\<close> followed by the encoding.
\<close>

lemma resolve_TARGET_part000_absent:
  "e (js ''data-target'') = None \<Longrightarrow> resolve_TARGET_part000 (Some e) = Inr (JStr [])"
  by (simp add: resolve_TARGET_part000_def getAttribute_def js_or_def js_def)

lemma resolve_TARGET_Id_no_tag: "resolve_TARGET_Id None None = JStr []"
  by (simp add: resolve_TARGET_Id_def js_def)

lemma cont_click_empty_target:
  "TARGET s = JStr [] \<Longrightarrow> Encode (did_value s) = Inr enc \<Longrightarrow>
   cont_click_Id s = Inr (js ''?discord_id='' @ enc) \<and>
   cont_click_part000 s = Inr (js ''?discord_id='' @ enc)"
  by (simp add: cont_click_Id_string cont_click_part000_string js_def)

text \<open>
  Claim C9. The continue handlers of \<open>Id.js\<close> and \<open>part_000\<close> give the same outcome on
  every page: the same destination URL for every target and input value, and the same
  exception where they throw.
\<close>

theorem cont_click_variants_equal: "cont_click_Id s = cont_click_part000 s"
  by (simp add: cont_click_Id_def cont_click_part000_def)


section \<open>The copy handler\<close>

text \<open>
  Claim C3. For every input value (any page \<open>s\<close>), every clipboard outcome (fulfilled,
  rejected, API absent) and whatever \<open>execCommand\<close> returns, after a copy click the
  label of the copy button is one of the script's two strings (\<open>Copied!\<close> or
  \<open>Copied (fallback)!\<close> in \<open>Id.js\<close>, \<open>Copied!\<close> or \<open>Select & copy\<close> in \<open>part_000\<close>) and
  the continue button is enabled.
\<close>

theorem copy_click_label_enabled:
  "(copy_textContent (fst (copy_click_Id oc exec_ok s)) = js ''Copied!'' \<or>
    copy_textContent (fst (copy_click_Id oc exec_ok s)) = js ''Copied (fallback)!'') \<and>
   cont_disabled (fst (copy_click_Id oc exec_ok s)) = False \<and>
   (copy_textContent (fst (copy_click_part000 oc s)) = js ''Copied!'' \<or>
    copy_textContent (fst (copy_click_part000 oc s)) = js ''Select & copy'') \<and>
   cont_disabled (fst (copy_click_part000 oc s)) = False"
  by (simp add: copy_click_Id_page copy_click_part000_page)

text \<open>
  The spec's scenario: the clipboard write is rejected on the input \<open>abc 123\<close>.
\<close>

theorem copy_click_label_enabled_witness:
  "copy_textContent (fst (copy_click_Id Rejected False
      \<lparr>did_value = js ''abc 123'', copy_textContent = js ''Copy'', cont_disabled = True,
       TARGET = JStr (js ''https://example.com/welcome'')\<rparr>)) = js ''Copied (fallback)!'' \<and>
   cont_disabled (fst (copy_click_Id Rejected False
      \<lparr>did_value = js ''abc 123'', copy_textContent = js ''Copy'', cont_disabled = True,
       TARGET = JStr (js ''https://example.com/welcome'')\<rparr>)) = False"
proof -
  let ?s = "\<lparr>did_value = js ''abc 123'', copy_textContent = js ''Copy'', cont_disabled = True,
       TARGET = JStr (js ''https://example.com/welcome'')\<rparr>"
  have "copy_textContent (fst (copy_click_Id Rejected False ?s)) \<noteq> js ''Copied!''"
    by (simp add: copy_click_Id_page labels_distinct)
  with copy_click_label_enabled [of Rejected False ?s] show ?thesis
    by blast
qed

text \<open>
  Claim C4, as amended. When the clipboard write does not succeed (rejected, or API
  absent), \<open>Id.js\<close> selects the input's text, calls \<open>document.execCommand('copy')\<close> and
  sets the label \<open>Copied (fallback)!\<close>, whatever \<open>execCommand\<close> returns; \<open>part_000\<close>
  selects the input's text and sets the label \<open>Select & copy\<close>, and calls nothing else.
  Both labels differ from the success label \<open>Copied!\<close>.
\<close>

theorem copy_click_fallback:
  assumes "oc \<noteq> Resolved"
  shows "snd (copy_click_Id oc exec_ok s) =
      (if oc = ApiAbsent then [] else [WriteText (did_value s)]) @
      [Select, ExecCommand (js ''copy'')] \<and>
    copy_textContent (fst (copy_click_Id oc exec_ok s)) = js ''Copied (fallback)!'' \<and>
    js ''Copied (fallback)!'' \<noteq> js ''Copied!'' \<and>
    snd (copy_click_part000 oc s) =
      (if oc = ApiAbsent then [] else [WriteText (did_value s)]) @ [Select] \<and>
    copy_textContent (fst (copy_click_part000 oc s)) = js ''Select & copy'' \<and>
    js ''Select & copy'' \<noteq> js ''Copied!''"
  using assms
  by (simp add: copy_click_Id_page copy_click_Id_calls copy_click_part000_page
      copy_click_part000_calls labels_distinct)

text \<open>
  Without the Clipboard API, on the input \<open>abc 123\<close>.
\<close>

theorem copy_click_fallback_witness:
  "ApiAbsent \<noteq> Resolved \<and>
   snd (copy_click_Id ApiAbsent False
      \<lparr>did_value = js ''abc 123'', copy_textContent = js ''Copy'', cont_disabled = True,
       TARGET = JStr (js ''https://example.com/welcome'')\<rparr>) =
     [Select, ExecCommand (js ''copy'')] \<and>
   copy_textContent (fst (copy_click_Id ApiAbsent False
      \<lparr>did_value = js ''abc 123'', copy_textContent = js ''Copy'', cont_disabled = True,
       TARGET = JStr (js ''https://example.com/welcome'')\<rparr>)) = js ''Copied (fallback)!''"
proof -
  have h: "ApiAbsent \<noteq> Resolved" by simp
  show ?thesis
    using h copy_click_fallback [OF h, of False
      "\<lparr>did_value = js ''abc 123'', copy_textContent = js ''Copy'', cont_disabled = True,
        TARGET = JStr (js ''https://example.com/welcome'')\<rparr>"]
    by simp
qed

text \<open>
  Claim C4 as stated fails on \<open>part_000\<close>: after a rejected clipboard write its handler
  has called \<open>writeText\<close> and \<open>select\<close> only, never the legacy copy command, and its
  label reads \<open>Select & copy\<close>.
\<close>

theorem copy_click_part000_no_execCommand:
  "snd (copy_click_part000 Rejected
      \<lparr>did_value = js ''abc 123'', copy_textContent = js ''Copy'', cont_disabled = True,
       TARGET = JStr (js ''https://example.com/welcome'')\<rparr>) =
     [WriteText (js ''abc 123''), Select] \<and>
   ExecCommand (js ''copy'') \<notin> set (snd (copy_click_part000 Rejected
      \<lparr>did_value = js ''abc 123'', copy_textContent = js ''Copy'', cont_disabled = True,
       TARGET = JStr (js ''https://example.com/welcome'')\<rparr>)) \<and>
   copy_textContent (fst (copy_click_part000 Rejected
      \<lparr>did_value = js ''abc 123'', copy_textContent = js ''Copy'', cont_disabled = True,
       TARGET = JStr (js ''https://example.com/welcome'')\<rparr>)) = js ''Select & copy''"
  by (simp add: copy_click_part000_page copy_click_part000_calls)

text \<open>
  Claim C10. A copy click leaves the page as it was but for the copy button's label and
  the continue button's \<open>disabled\<close> flag: the input's value and \<open>TARGET\<close> are
  unchanged, in both scripts, on the success path and on the fallback path. (The browser
  calls the handler makes, which write the clipboard and select the input's text, are
  its second result and not part of the page state.)
\<close>

theorem copy_click_frame:
  "fst (copy_click_Id oc exec_ok s) =
     s\<lparr>copy_textContent := copy_textContent (fst (copy_click_Id oc exec_ok s)),
       cont_disabled := cont_disabled (fst (copy_click_Id oc exec_ok s))\<rparr> \<and>
   did_value (fst (copy_click_Id oc exec_ok s)) = did_value s \<and>
   TARGET (fst (copy_click_Id oc exec_ok s)) = TARGET s \<and>
   fst (copy_click_part000 oc s) =
     s\<lparr>copy_textContent := copy_textContent (fst (copy_click_part000 oc s)),
       cont_disabled := cont_disabled (fst (copy_click_part000 oc s))\<rparr> \<and>
   did_value (fst (copy_click_part000 oc s)) = did_value s \<and>
   TARGET (fst (copy_click_part000 oc s)) = TARGET s"
  by (simp add: copy_click_Id_page copy_click_part000_page)

text \<open>
  On the input \<open>abc 123\<close>: a rejected write in \<open>Id.js\<close> and a fulfilled one in
  \<open>part_000\<close>.
\<close>

theorem copy_click_frame_witness:
  "did_value (fst (copy_click_Id Rejected True
      \<lparr>did_value = js ''abc 123'', copy_textContent = js ''Copy'', cont_disabled = True,
       TARGET = JStr (js ''https://example.com/welcome'')\<rparr>)) = js ''abc 123'' \<and>
   TARGET (fst (copy_click_part000 Resolved
      \<lparr>did_value = js ''abc 123'', copy_textContent = js ''Copy'', cont_disabled = True,
       TARGET = JStr (js ''https://example.com/welcome'')\<rparr>)) =
     JStr (js ''https://example.com/welcome'')"
  using copy_click_frame [of Rejected True
      "\<lparr>did_value = js ''abc 123'', copy_textContent = js ''Copy'', cont_disabled = True,
        TARGET = JStr (js ''https://example.com/welcome'')\<rparr>"]
    copy_click_frame [of Resolved True
      "\<lparr>did_value = js ''abc 123'', copy_textContent = js ''Copy'', cont_disabled = True,
        TARGET = JStr (js ''https://example.com/welcome'')\<rparr>"]
  by simp

lemma copy_click_page:
  "fst (copy_click V oc exec_ok s) =
     s\<lparr>copy_textContent :=
         (if oc = Resolved then js ''Copied!''
          else case V of Id_js \<Rightarrow> js ''Copied (fallback)!'' | Part_000 \<Rightarrow> js ''Select & copy''),
       cont_disabled := False\<rparr>"
  by (cases V) (simp_all add: copy_click_def copy_click_Id_page copy_click_part000_page)

lemma copy_clicks_page:
  "copy_clicks V oc (x # xs) s = fst (copy_click V oc x s)"
proof (induction xs arbitrary: x s)
  case Nil
  show ?case by simp
next
  case (Cons y ys)
  have "copy_clicks V oc (x # y # ys) s = copy_clicks V oc (y # ys) (fst (copy_click V oc x s))"
    by simp
  also have "\<dots> = fst (copy_click V oc y (fst (copy_click V oc x s)))"
    by (rule Cons.IH)
  also have "\<dots> = fst (copy_click V oc x s)"
    by (simp add: copy_click_page)
  finally show ?case .
qed

lemma copy_clicks_enabled:
  "cont_disabled s = False \<Longrightarrow> cont_disabled (copy_clicks V oc xs s) = False"
  by (cases xs) (simp_all add: copy_clicks_page copy_click_page del: copy_clicks.simps(2))

text \<open>
  Claim C8. Clicking copy any number of times (at least once) with the same clipboard
  outcome, no edit in between, leaves the label the first click set and the continue
  button enabled; a continue button that is enabled stays enabled; and a second click
  changes nothing of the page the first one left.
\<close>

theorem copy_click_repeated:
  "(xs \<noteq> [] \<longrightarrow>
      copy_textContent (copy_clicks V oc xs s) = copy_textContent (fst (copy_click V oc x s)) \<and>
      cont_disabled (copy_clicks V oc xs s) = False) \<and>
   (cont_disabled s = False \<longrightarrow> cont_disabled (copy_clicks V oc xs s) = False) \<and>
   fst (copy_click V oc y (fst (copy_click V oc x s))) = fst (copy_click V oc x s)"
proof (intro conjI impI)
  assume "xs \<noteq> []"
  then obtain z zs where xs: "xs = z # zs"
    by (cases xs) auto
  show "copy_textContent (copy_clicks V oc xs s) = copy_textContent (fst (copy_click V oc x s))"
    by (simp add: xs copy_clicks_page copy_click_page del: copy_clicks.simps(2))
  show "cont_disabled (copy_clicks V oc xs s) = False"
    by (simp add: xs copy_clicks_page copy_click_page del: copy_clicks.simps(2))
next
  assume "cont_disabled s = False"
  then show "cont_disabled (copy_clicks V oc xs s) = False"
    by (rule copy_clicks_enabled)
next
  show "fst (copy_click V oc y (fst (copy_click V oc x s))) = fst (copy_click V oc x s)"
    by (simp add: copy_click_page)
qed

text \<open>
  Three clicks in \<open>Id.js\<close>, each clipboard write rejected.
\<close>

theorem copy_click_repeated_witness:
  "[True, False, True] \<noteq> [] \<and>
   copy_textContent (copy_clicks Id_js Rejected [True, False, True]
      \<lparr>did_value = js ''abc 123'', copy_textContent = js ''Copy'', cont_disabled = True,
       TARGET = JStr (js ''https://example.com/welcome'')\<rparr>) = js ''Copied (fallback)!'' \<and>
   cont_disabled (copy_clicks Id_js Rejected [True, False, True]
      \<lparr>did_value = js ''abc 123'', copy_textContent = js ''Copy'', cont_disabled = True,
       TARGET = JStr (js ''https://example.com/welcome'')\<rparr>) = False"
  using copy_click_repeated [of "[True, False, True]" Id_js Rejected
      "\<lparr>did_value = js ''abc 123'', copy_textContent = js ''Copy'', cont_disabled = True,
        TARGET = JStr (js ''https://example.com/welcome'')\<rparr>" True]
  by (simp add: copy_click_page del: copy_clicks.simps(2))


section \<open>The two handlers together\<close>

text \<open>
  Claim C7. Each handler reads the input's value at its own click. A copy click on a
  page passes the value the page holds then to \<open>writeText\<close> (and no other value); if
  the user then edits the field to \<open>v'\<close>, a continue click navigates with the encoding
  of \<open>v'\<close>, and a further copy click passes \<open>v'\<close> to \<open>writeText\<close>.
\<close>

theorem handlers_read_live:
  assumes "isWellFormed v'" and "TARGET s = JStr T"
  shows "\<exists>enc. encodeURIComponent v' = Inr enc \<and>
    cont_click V (user_edit v' (fst (copy_click V oc exec_ok s))) =
      Inr (T @ (if 0x3F \<in> set T then js ''&'' else js ''?'') @ js ''discord_id='' @ enc) \<and>
    (\<forall>w. WriteText w \<in> set (snd (copy_click V oc exec_ok s)) \<longrightarrow> w = did_value s) \<and>
    (oc \<noteq> ApiAbsent \<longrightarrow> WriteText (did_value s) \<in> set (snd (copy_click V oc exec_ok s))) \<and>
    (oc' \<noteq> ApiAbsent \<longrightarrow>
       WriteText v' \<in>
         set (snd (copy_click V oc' exec_ok' (user_edit v' (fst (copy_click V oc exec_ok s))))))"
proof -
  from assms(1) obtain enc where enc: "Encode v' = Inr enc"
    using Encode_isWellFormed by blast
  let ?s1 = "user_edit v' (fst (copy_click V oc exec_ok s))"
  have t: "TARGET ?s1 = JStr T" and v: "did_value ?s1 = v'"
    using assms(2) by (simp_all add: user_edit_def copy_click_page)
  have "cont_click V ?s1 =
      Inr (T @ (if 0x3F \<in> set T then js ''&'' else js ''?'') @ js ''discord_id='' @ enc)"
    using enc v by (simp add: cont_click_string [OF t])
  moreover have "\<forall>w. WriteText w \<in> set (snd (copy_click V oc exec_ok s)) \<longrightarrow> w = did_value s"
    by (cases V) (auto simp: copy_click_def copy_click_Id_calls copy_click_part000_calls
        split: if_splits)
  moreover have "oc \<noteq> ApiAbsent \<longrightarrow> WriteText (did_value s) \<in> set (snd (copy_click V oc exec_ok s))"
    by (cases V) (simp_all add: copy_click_def copy_click_Id_calls copy_click_part000_calls)
  moreover have "oc' \<noteq> ApiAbsent \<longrightarrow>
       WriteText v' \<in> set (snd (copy_click V oc' exec_ok' ?s1))"
    using v
    by (cases V) (simp_all add: copy_click_def copy_click_Id_calls copy_click_part000_calls)
  ultimately show ?thesis
    using enc by (simp add: encodeURIComponent_def)
qed

text \<open>
  The value \<open>111\<close> is copied, the field is edited to \<open>222\<close>, and the continue click
  navigates with \<open>222\<close>.
\<close>

theorem handlers_read_live_witness:
  "isWellFormed (js ''222'') \<and>
   snd (copy_click Id_js Resolved True
      \<lparr>did_value = js ''111'', copy_textContent = js ''Copy'', cont_disabled = True,
       TARGET = JStr (js ''https://example.com/welcome'')\<rparr>) = [WriteText (js ''111'')] \<and>
   cont_click Id_js (user_edit (js ''222'') (fst (copy_click Id_js Resolved True
      \<lparr>did_value = js ''111'', copy_textContent = js ''Copy'', cont_disabled = True,
       TARGET = JStr (js ''https://example.com/welcome'')\<rparr>))) =
     Inr (js ''https://example.com/welcome?discord_id=222'')"
proof -
  let ?s = "\<lparr>did_value = js ''111'', copy_textContent = js ''Copy'', cont_disabled = True,
       TARGET = JStr (js ''https://example.com/welcome'')\<rparr>"
  have wf: "isWellFormed (js ''222'')"
    by (simp add: enc_eval)
  have t: "TARGET ?s = JStr (js ''https://example.com/welcome'')"
    by simp
  have e: "encodeURIComponent (js ''222'') = Inr (js ''222'')"
    by (simp add: encodeURIComponent_def enc_eval)
  from handlers_read_live [OF wf t, of Id_js Resolved True] e
  have "cont_click Id_js (user_edit (js ''222'') (fst (copy_click Id_js Resolved True ?s))) =
      Inr (js ''https://example.com/welcome?discord_id=222'')"
    by (auto simp: js_def)
  moreover have "snd (copy_click Id_js Resolved True ?s) = [WriteText (js ''111'')]"
    by (simp add: copy_click_def copy_click_Id_calls)
  ultimately show ?thesis
    using wf by simp
qed

section \<open>Escaping\<close>

lemma CodePointAt_whole:
  assumes "CodePointAt C r = (cp, Suc (length r), False)"
  shows "(\<not> is_leading_surrogate C \<and> \<not> is_trailing_surrogate C \<and> r = [] \<and> cp = unat C) \<or>
    (\<exists>d. is_leading_surrogate C \<and> is_trailing_surrogate d \<and> r = [d] \<and>
       cp = UTF16SurrogatePairToCodePoint C d)"
  using assms
  by (cases r; cases "tl r") (auto simp: CodePointAt_def split: if_splits)

lemma Encode_character:
  assumes "Encode (a @ C # r @ b) = Inr e"
    and "\<not> unescaped C"
    and "CodePointAt C r = (cp, Suc (length r), False)"
  shows "\<exists>ea eb. Encode a = Inr ea \<and> Encode b = Inr eb \<and> e = ea @ escape cp @ eb"
proof -
  from CodePointAt_whole [OF assms(3)] have nt: "\<not> is_trailing_surrogate C"
    using leading_not_trailing by blast
  then obtain ea where ea: "Encode a = Inr ea"
    using Encode_prefix [OF assms(1)] by auto
  from Encode_append [OF ea, of "C # r @ b"] assms(1)
  obtain e' where e': "Encode (C # r @ b) = Inr e'" and e: "e = ea @ e'"
    by (auto split: sum.splits)
  from CodePointAt_whole [OF assms(3)] have "\<exists>eb. Encode b = Inr eb \<and> e' = escape cp @ eb"
  proof (elim disjE conjE exE)
    assume "\<not> is_leading_surrogate C" "\<not> is_trailing_surrogate C" "r = []" "cp = unat C"
    with e' assms(2) show ?thesis
      by (auto simp: Encode_plain split: sum.splits)
  next
    fix d
    assume "is_leading_surrogate C" "is_trailing_surrogate d" "r = [d]"
      "cp = UTF16SurrogatePairToCodePoint C d"
    with e' show ?thesis
      by (auto simp: Encode_pair split: sum.splits)
  qed
  with ea e show ?thesis by blast
qed

text \<open>
  Claim C6. Whenever a continue handler computes a destination URL, the input value is
  well-formed; take any character of the value that \<open>encodeURIComponent\<close> does not keep
  as it is (one code unit \<open>C\<close>, or a surrogate pair \<open>C\<close> and its trailing unit, of code
  point \<open>cp\<close>), with the value's text \<open>a\<close> before it and \<open>b\<close> after it. The URL is the
  target, the separator, \<open>discord_id=\<close>, the encoding of \<open>a\<close>, the escapes \<open>%XX\<close> of
  the UTF-8 octets of \<open>cp\<close>, and the encoding of \<open>b\<close>; and all that follows
  \<open>discord_id=\<close> is made of unescaped characters and \<open>%\<close> only, so no space, \<open>&\<close> or
  \<open>#\<close> of the value appears in it.
\<close>

theorem cont_click_escapes:
  assumes "cont_click V s = Inr url"
    and "did_value s = a @ C # r @ b"
    and "\<not> unescaped C"
    and "CodePointAt C r = (cp, Suc (length r), False)"
  shows "\<exists>T ea eb. TARGET s = JStr T \<and> Encode a = Inr ea \<and> Encode b = Inr eb \<and>
    url = T @ (if 0x3F \<in> set T then js ''&'' else js ''?'') @ js ''discord_id='' @
            ea @ escape cp @ eb \<and>
    (\<forall>u \<in> set (ea @ escape cp @ eb). unescaped u \<or> u = 0x25)"
proof -
  from assms(1) obtain T where T: "TARGET s = JStr T"
    by (cases V; cases "TARGET s")
      (auto simp: cont_click_def cont_click_Id_def cont_click_part000_def)
  have "cont_click V s =
     (case Encode (did_value s) of
        Inl e \<Rightarrow> Inl e
      | Inr enc \<Rightarrow>
          Inr (T @ (if 0x3F \<in> set T then js ''&'' else js ''?'') @ js ''discord_id='' @ enc))"
    by (rule cont_click_string [OF T])
  with assms(1) obtain enc where enc: "Encode (did_value s) = Inr enc"
    and url: "url = T @ (if 0x3F \<in> set T then js ''&'' else js ''?'') @ js ''discord_id='' @ enc"
    by (auto split: sum.splits)
  from enc assms(2) have "Encode (a @ C # r @ b) = Inr enc"
    by simp
  from Encode_character [OF this assms(3) assms(4)]
  obtain ea eb where ea: "Encode a = Inr ea" and eb: "Encode b = Inr eb"
    and e: "enc = ea @ escape cp @ eb"
    by blast
  have "\<forall>u \<in> set enc. unescaped u \<or> u = 0x25"
    using Encode_chars [OF enc] by blast
  with T ea eb e url show ?thesis
    by blast
qed

text \<open>
  The input \<open>abc 123&x#y\<close>, at its space: the destination holds \<open>%20\<close>, \<open>%26\<close> and
  \<open>%23\<close>.
\<close>

theorem cont_click_escapes_witness:
  "cont_click Part_000
      \<lparr>did_value = js ''abc 123&x#y'', copy_textContent = js ''Copied!'',
       cont_disabled = False, TARGET = JStr (js ''https://example.com/welcome'')\<rparr> =
     Inr (js ''https://example.com/welcome?discord_id=abc%20123%26x%23y'') \<and>
   js ''abc 123&x#y'' = js ''abc'' @ 0x20 # [] @ js ''123&x#y'' \<and>
   unescaped 0x20 = False \<and>
   CodePointAt 0x20 [] = (0x20, Suc (length ([] :: jsstring)), False) \<and>
   (\<exists>ea eb. Encode (js ''abc'') = Inr ea \<and> Encode (js ''123&x#y'') = Inr eb \<and>
      js ''https://example.com/welcome?discord_id=abc%20123%26x%23y'' =
        js ''https://example.com/welcome?discord_id='' @ ea @ js ''%20'' @ eb)"
proof -
  let ?s = "\<lparr>did_value = js ''abc 123&x#y'', copy_textContent = js ''Copied!'',
       cont_disabled = False, TARGET = JStr (js ''https://example.com/welcome'')\<rparr>"
  let ?url = "js ''https://example.com/welcome?discord_id=abc%20123%26x%23y''"
  have t: "TARGET ?s = JStr (js ''https://example.com/welcome'')"
    by simp
  have h1: "cont_click Part_000 ?s = Inr ?url"
    by (subst cont_click_string [OF t]) (simp add: enc_eval)
  have h2: "did_value ?s = js ''abc'' @ 0x20 # [] @ js ''123&x#y''"
    by (simp add: js_def)
  have h3: "\<not> unescaped 0x20"
    by (simp add: unescaped_def)
  have h4: "CodePointAt 0x20 [] = (0x20, Suc (length ([] :: jsstring)), False)"
    by (simp add: CodePointAt_def is_leading_surrogate_def is_trailing_surrogate_def)
  have esc: "escape 0x20 = js ''%20''"
    by (simp add: enc_eval)
  have q: "(0x3F :: 16 word) \<notin> set (js ''https://example.com/welcome'')"
    by (simp add: js_def)
  have pre: "js ''https://example.com/welcome'' @ js ''?'' @ js ''discord_id='' @ rest =
      js ''https://example.com/welcome?discord_id='' @ rest" for rest
    by (simp add: js_def)
  from cont_click_escapes [OF h1 h2 h3 h4]
  obtain T ea eb where T: "TARGET ?s = JStr T" and ea: "Encode (js ''abc'') = Inr ea"
    and eb: "Encode (js ''123&x#y'') = Inr eb"
    and u: "?url = T @ (if 0x3F \<in> set T then js ''&'' else js ''?'') @ js ''discord_id='' @
            ea @ escape 0x20 @ eb"
    by blast
  from T have T': "T = js ''https://example.com/welcome''"
    by simp
  from u have "?url = js ''https://example.com/welcome?discord_id='' @ ea @ js ''%20'' @ eb"
    by (simp only: T' esc q if_False pre)
  with ea eb
  have "\<exists>ea eb. Encode (js ''abc'') = Inr ea \<and> Encode (js ''123&x#y'') = Inr eb \<and>
      ?url = js ''https://example.com/welcome?discord_id='' @ ea @ js ''%20'' @ eb"
    by blast
  with h1 h2 h3 h4 show ?thesis
    by simp
qed


section \<open>The lifetime of a page\<close>

lemma copy_after_page:
  "fst (copy_after V r exec_ok s) =
     s\<lparr>copy_textContent :=
         (case r of
            Inr _ \<Rightarrow> js ''Copied!''
          | Inl _ \<Rightarrow>
              (case V of Id_js \<Rightarrow> js ''Copied (fallback)!'' | Part_000 \<Rightarrow> js ''Select & copy'')),
       cont_disabled := False\<rparr>"
  by (cases V; cases r) (simp_all add: copy_after_def copy_after_Id_def copy_after_part000_def)

lemma step_pg_cases:
  "pg (step V ev c) = pg c \<or>
   (\<exists>v. ev = UserEdit v \<and> pg (step V ev c) = user_edit v (pg c)) \<or>
   (\<exists>r x. pg (step V ev c) = fst (copy_after V r x (pg c)) \<and>
      ((\<exists>p. ev = ClickCopy p x) \<or> (\<exists>f. ev = Settle f x \<and> pending c \<noteq> 0)))"
proof (cases "location_href c \<noteq> None")
  case True
  then show ?thesis by (simp add: step_def)
next
  case False
  show ?thesis
  proof (cases ev)
    case (ClickCopy p x)
    show ?thesis
    proof (cases p)
      case True
      with False ClickCopy show ?thesis
        by (simp add: step_def writeText_def)
    next
      case nop: False
      with False ClickCopy
      have "pg (step V ev c) = fst (copy_after V (Inl TypeError) x (pg c))"
        by (simp add: step_def writeText_def split: prod.splits)
      with ClickCopy show ?thesis by blast
    qed
  next
    case (Settle f x)
    show ?thesis
    proof (cases "pending c = 0")
      case True
      with False Settle show ?thesis by (simp add: step_def)
    next
      case pend: False
      with False Settle
      have "pg (step V ev c) =
          fst (copy_after V (if f then Inr () else Inl NotAllowedError) x (pg c))"
        by (simp add: step_def split: prod.splits)
      with Settle pend show ?thesis by blast
    qed
  next
    case (UserEdit v)
    with False show ?thesis by (simp add: step_def)
  next
    case ClickContinue
    with False show ?thesis by (simp add: step_def split: sum.splits)
  qed
qed

lemma step_enabled:
  "cont_disabled (pg c) = False \<Longrightarrow> cont_disabled (pg (step V ev c)) = False"
  using step_pg_cases [of V ev c]
  by (auto simp: user_edit_def copy_after_page)

lemma run_append: "run V (evs @ later) c = run V later (run V evs c)"
  by (induction evs arbitrary: c) simp_all

lemma run_enabled:
  "cont_disabled (pg c) = False \<Longrightarrow> cont_disabled (pg (run V evs c)) = False"
  by (induction evs arbitrary: c) (simp_all add: step_enabled)

lemma step_pending:
  assumes "pending c = 0" and "\<forall>p x. ev \<noteq> ClickCopy p x"
  shows "pending (step V ev c) = 0"
proof (cases ev)
  case (ClickCopy p x)
  with assms(2) show ?thesis by blast
next
  case (Settle f x)
  with assms(1) show ?thesis by (simp add: step_def)
next
  case (UserEdit v)
  with assms(1) show ?thesis by (simp add: step_def)
next
  case ClickContinue
  with assms(1) show ?thesis by (simp add: step_def split: sum.splits)
qed

lemma step_still_disabled:
  assumes "cont_disabled (pg c)" and "pending c = 0" and "\<forall>p x. ev \<noteq> ClickCopy p x"
  shows "cont_disabled (pg (step V ev c))"
  using step_pg_cases [of V ev c] assms
  by (auto simp: user_edit_def)

lemma run_still_disabled:
  "cont_disabled (pg c) \<Longrightarrow> pending c = 0 \<Longrightarrow> \<forall>p x. ClickCopy p x \<notin> set evs \<Longrightarrow>
   cont_disabled (pg (run V evs c))"
proof (induction evs arbitrary: c)
  case Nil
  then show ?case by simp
next
  case (Cons ev evs)
  from Cons.prems(3) have ev: "\<forall>p x. ev \<noteq> ClickCopy p x"
    and rest: "\<forall>p x. ClickCopy p x \<notin> set evs"
    by auto
  have "cont_disabled (pg (step V ev c))"
    by (rule step_still_disabled [OF Cons.prems(1) Cons.prems(2) ev])
  moreover have "pending (step V ev c) = 0"
    by (rule step_pending [OF Cons.prems(2) ev])
  ultimately show ?case
    using Cons.IH rest by simp
qed

text \<open>
  Claim C5. On a page loaded with the continue button disabled, after any sequence of
  events (copy clicks, pending clipboard writes settling, edits, continue clicks) the
  continue button is enabled only if a copy click is among the events so far; and from
  any state, once the button is enabled it is enabled after every further sequence of
  events. That the page loads with the button disabled is the hosting page's markup,
  which is not part of the scripts.
\<close>

theorem continue_enabled_only_after_copy:
  "(cont_disabled s0 \<and> cont_disabled (pg (run V evs (loaded s0))) = False \<longrightarrow>
      (\<exists>p x. ClickCopy p x \<in> set evs)) \<and>
   (cont_disabled (pg (run V evs c)) = False \<longrightarrow>
      cont_disabled (pg (run V (evs @ later) c)) = False)"
proof (intro conjI impI)
  assume a: "cont_disabled s0 \<and> cont_disabled (pg (run V evs (loaded s0))) = False"
  show "\<exists>p x. ClickCopy p x \<in> set evs"
  proof (rule ccontr)
    assume "\<nexists>p x. ClickCopy p x \<in> set evs"
    then have "\<forall>p x. ClickCopy p x \<notin> set evs"
      by blast
    moreover have "cont_disabled (pg (loaded s0))" and "pending (loaded s0) = 0"
      using a by (simp_all add: loaded_def)
    ultimately have "cont_disabled (pg (run V evs (loaded s0)))"
      using run_still_disabled by blast
    with a show False by simp
  qed
next
  assume "cont_disabled (pg (run V evs c)) = False"
  then show "cont_disabled (pg (run V (evs @ later) c)) = False"
    by (simp add: run_append run_enabled)
qed

text \<open>
  A lifetime of \<open>Id.js\<close>: a continue click on the disabled button, a copy click whose
  clipboard write is then rejected, an edit and a continue click. The button is
  disabled before the write settles and enabled from then on.
\<close>

theorem continue_enabled_only_after_copy_witness:
  "cont_disabled \<lparr>did_value = js ''111'', copy_textContent = js ''Copy'', cont_disabled = True,
       TARGET = JStr (js ''https://example.com/welcome'')\<rparr> \<and>
   cont_disabled (pg (run Id_js [ClickContinue, ClickCopy True True]
      (loaded \<lparr>did_value = js ''111'', copy_textContent = js ''Copy'', cont_disabled = True,
         TARGET = JStr (js ''https://example.com/welcome'')\<rparr>))) \<and>
   cont_disabled (pg (run Id_js [ClickContinue, ClickCopy True True, Settle False True]
      (loaded \<lparr>did_value = js ''111'', copy_textContent = js ''Copy'', cont_disabled = True,
         TARGET = JStr (js ''https://example.com/welcome'')\<rparr>))) = False \<and>
   (\<exists>p x. ClickCopy p x \<in> set [ClickContinue, ClickCopy True True, Settle False True]) \<and>
   cont_disabled (pg (run Id_js
      ([ClickContinue, ClickCopy True True, Settle False True] @ [UserEdit (js ''222''), ClickContinue])
      (loaded \<lparr>did_value = js ''111'', copy_textContent = js ''Copy'', cont_disabled = True,
         TARGET = JStr (js ''https://example.com/welcome'')\<rparr>))) = False"
proof -
  let ?s = "\<lparr>did_value = js ''111'', copy_textContent = js ''Copy'', cont_disabled = True,
       TARGET = JStr (js ''https://example.com/welcome'')\<rparr>"
  let ?evs = "[ClickContinue, ClickCopy True True, Settle False True]"
  have d0: "cont_disabled ?s"
    by simp
  have d1: "cont_disabled (pg (run Id_js [ClickContinue, ClickCopy True True] (loaded ?s)))"
    by (simp add: loaded_def step_def writeText_def)
  have e: "cont_disabled (pg (run Id_js ?evs (loaded ?s))) = False"
    by (simp add: loaded_def step_def writeText_def copy_after_def copy_after_Id_def)
  from continue_enabled_only_after_copy
    [of ?s Id_js ?evs "loaded ?s" "[UserEdit (js ''222''), ClickContinue]"] d0 e
  have "(\<exists>p x. ClickCopy p x \<in> set ?evs) \<and>
    cont_disabled (pg (run Id_js (?evs @ [UserEdit (js ''222''), ClickContinue]) (loaded ?s))) = False"
    by blast
  with d0 d1 e show ?thesis
    by blast
qed

lemma run_click_settle:
  "location_href c = None \<Longrightarrow>
   pg (run V [ClickCopy True x0, Settle fulfilled x] c) =
     fst (copy_click V (if fulfilled then Resolved else Rejected) x (pg c)) \<and>
   calls (run V [ClickCopy True x0, Settle fulfilled x] c) =
     calls c @ snd (copy_click V (if fulfilled then Resolved else Rejected) x (pg c))"
  by (cases V)
    (simp_all add: step_def writeText_def copy_after_def copy_click_def copy_click_Id_def
      copy_click_part000_def copy_after_Id_def copy_after_part000_def)

lemma run_click_absent:
  "location_href c = None \<Longrightarrow>
   pg (run V [ClickCopy False x] c) = fst (copy_click V ApiAbsent x (pg c)) \<and>
   calls (run V [ClickCopy False x] c) = calls c @ snd (copy_click V ApiAbsent x (pg c))"
  by (cases V)
    (simp_all add: step_def writeText_def copy_after_def copy_click_def copy_click_Id_def
      copy_click_part000_def copy_after_Id_def copy_after_part000_def)

end
